theory Spec2Isabelle
  imports Complex_Main
begin

section \<open>Judgment engine (src/game.js)\<close>

text \<open>
  Clock readings, note times and health are JavaScript numbers. They are modelled as
  rationals: every constant of the engine (0.15, 0.2, 0.03, 1.5, the millisecond
  thresholds) is then exact. Scores, combos and counters only ever take integer values
  and are integers here. The clock is external: each entry point receives the value of
  \<open>audioContext.currentTime - audioStartTime + GLOBAL_OFFSET\<close> as its argument.
\<close>

datatype noteType = Tap | LN

datatype judge = COOL | GOOD | BAD | MISS

text \<open>A compiled note, \<open>{ time, lane, type, duration }\<close>.\<close>

record chartNote =
  time :: rat
  lane :: int
  type :: noteType
  duration :: rat

text \<open>A runtime note: the compiled note spread into an object with the runtime flags
  (\<open>hitTime\<close> is absent until a hold head is pressed).\<close>

record runtimeNote = chartNote +
  hit :: bool
  missed :: bool
  isHolding :: bool
  hitTime :: "rat option"

record stats =
  combo :: int
  score :: int
  cool :: int
  good :: int
  bad :: int
  miss :: int
  maxCombo :: int
  comboBonus :: int
  hp :: rat

text \<open>
  The part of \<open>RhythmGame\<close> the judgment code reads and writes. Two fields are not
  fields of the source: \<open>exitClicks\<close> counts the calls of \<open>btnExit.click()\<close> (the
  handler lives outside the engine), and \<open>judgeLog\<close> is the trace of the calls of
  \<open>triggerHit\<close> and \<open>triggerMiss\<close>, each with the index of the note it was made for.
\<close>

record game =
  runtimeNotes :: "runtimeNote list"
  stats :: stats
  isPlaying :: bool
  autoDemo :: bool
  exitClicks :: nat
  judgeLog :: "(nat \<times> judge) list"

definition freshStats :: stats where
  "freshStats = \<lparr>combo = 0, score = 0, cool = 0, good = 0, bad = 0, miss = 0,
                  maxCombo = 0, comboBonus = 0, hp = 100\<rparr>"

subsection \<open>\<open>start\<close>: lane remapping and filter\<close>

text \<open>The preparation of the runtime notes in \<open>start(chart, audioUrl)\<close>, and the engine
  when \<open>start\<close> has run to its end (the audio was loaded): the statistics reset, the
  notes prepared, \<open>isPlaying\<close> set. \<open>autoDemo\<close> is as the constructor leaves it.\<close>

definition usedLanes :: "chartNote list \<Rightarrow> int set" where
  "usedLanes ns = set (map lane ns)"

definition remapLane :: "int set \<Rightarrow> int \<Rightarrow> int" where
  "remapLane used l0 =
     (let l1 = (if l0 = 4 \<and> 3 \<notin> used then 3 else l0);
          l2 = (if l1 = 5 \<and> 3 \<notin> used \<and> 4 \<notin> used then 3 else l1)
      in l2)"

definition toRuntime :: "int set \<Rightarrow> chartNote \<Rightarrow> runtimeNote" where
  "toRuntime used n =
     \<lparr>time = time n, lane = remapLane used (lane n), type = type n, duration = duration n,
      hit = False, missed = False, isHolding = False, hitTime = None\<rparr>"

definition prepareNotes :: "chartNote list \<Rightarrow> runtimeNote list" where
  "prepareNotes ns = filter (\<lambda>n. lane n < 4) (map (toRuntime (usedLanes ns)) ns)"

definition start :: "chartNote list \<Rightarrow> game" where
  "start ns = \<lparr>runtimeNotes = prepareNotes ns, stats = freshStats, isPlaying = True,
               autoDemo = False, exitClicks = 0, judgeLog = []\<rparr>"

subsection \<open>\<open>triggerHit\<close> and \<open>triggerMiss\<close>\<close>

definition clampHp :: "rat \<Rightarrow> rat" where
  "clampHp h = max 0 (min 100 h)"

definition hitCombo :: "judge \<Rightarrow> stats \<Rightarrow> stats" where
  "hitCombo j st =
     (if j = BAD then st\<lparr>combo := 0, comboBonus := 0\<rparr>
      else (let s1 = st\<lparr>combo := combo st + 1\<rparr>;
                s2 = (if combo s1 > maxCombo s1 then s1\<lparr>maxCombo := combo s1\<rparr> else s1)
            in if combo s2 > 0 \<and> combo s2 mod 25 = 0
               then s2\<lparr>comboBonus := comboBonus s2 + 10\<rparr> else s2))"

definition hitScore :: "judge \<Rightarrow> stats \<Rightarrow> stats" where
  "hitScore j st =
     (let bonus = (if j = COOL \<or> j = GOOD then comboBonus st else 0);
          s1 = (if j = COOL then st\<lparr>score := score st + (100 + bonus)\<rparr> else st);
          s2 = (if j = GOOD then s1\<lparr>score := score s1 + (80 + bonus)\<rparr> else s1)
      in if j = BAD then s2\<lparr>score := score s2 + 10\<rparr> else s2)"

definition hitCount :: "judge \<Rightarrow> stats \<Rightarrow> stats" where
  "hitCount j st =
     (if j = COOL then st\<lparr>cool := cool st + 1\<rparr>
      else if j = GOOD then st\<lparr>good := good st + 1\<rparr>
      else if j = BAD then st\<lparr>bad := bad st + 1\<rparr>
      else st)"

definition hitHp :: "judge \<Rightarrow> stats \<Rightarrow> stats" where
  "hitHp j st =
     (let s1 = (if j = COOL then st\<lparr>hp := hp st + 2\<rparr>
                else if j = GOOD then st\<lparr>hp := hp st + 3 / 2\<rparr>
                else st)
      in s1\<lparr>hp := clampHp (hp s1)\<rparr>)"

text \<open>The statements after the early \<open>return\<close> of both functions: the score floor
  (the HUD and effect calls that follow it do not touch the state).\<close>

definition floorScore :: "stats \<Rightarrow> stats" where
  "floorScore st = (if score st < 0 then st\<lparr>score := 0\<rparr> else st)"

definition triggerHit :: "judge \<Rightarrow> int \<Rightarrow> game \<Rightarrow> game" where
  "triggerHit j la g =
     (let st = hitHp j (hitCount j (hitScore j (hitCombo j (stats g))))
      in if hp st \<le> 0 then g\<lparr>stats := st, exitClicks := exitClicks g + 1\<rparr>
         else g\<lparr>stats := floorScore st\<rparr>)"

definition missStats :: "stats \<Rightarrow> stats" where
  "missStats st =
     (let s1 = st\<lparr>combo := 0\<rparr>;
          s2 = s1\<lparr>miss := miss s1 + 1\<rparr>;
          s3 = s2\<lparr>comboBonus := 0\<rparr>;
          s4 = s3\<lparr>score := score s3 - 20\<rparr>;
          s5 = s4\<lparr>hp := hp s4 - 4\<rparr>
      in s5\<lparr>hp := clampHp (hp s5)\<rparr>)"

text \<open>\<open>triggerMiss(note)\<close>; the note is named by its index in \<open>runtimeNotes\<close>.\<close>

definition triggerMiss :: "nat \<Rightarrow> game \<Rightarrow> game" where
  "triggerMiss i g =
     (let ns = (runtimeNotes g)[i := (runtimeNotes g ! i)\<lparr>missed := True\<rparr>];
          st = missStats (stats g)
      in if hp st \<le> 0 then g\<lparr>runtimeNotes := ns, stats := st, exitClicks := exitClicks g + 1\<rparr>
         else g\<lparr>runtimeNotes := ns, stats := floorScore st\<rparr>)"

definition logJudge :: "nat \<Rightarrow> judge \<Rightarrow> game \<Rightarrow> game" where
  "logJudge i j g = g\<lparr>judgeLog := judgeLog g @ [(i, j)]\<rparr>"

subsection \<open>\<open>checkHit\<close>\<close>

definition isCandidate :: "int \<Rightarrow> rat \<Rightarrow> runtimeNote \<Rightarrow> bool" where
  "isCandidate la t n \<longleftrightarrow> lane n = la \<and> \<not> hit n \<and> \<not> missed n \<and> \<bar>time n - t\<bar> < 15 / 100"

definition candidates :: "int \<Rightarrow> rat \<Rightarrow> game \<Rightarrow> nat list" where
  "candidates la t g =
     filter (\<lambda>i. isCandidate la t (runtimeNotes g ! i)) [0 ..< length (runtimeNotes g)]"

definition judgeOf :: "rat \<Rightarrow> judge" where
  "judgeOf m =
     (if m \<ge> -50 \<and> m \<le> 50 then COOL
      else if (m \<ge> 51 \<and> m \<le> 85) \<or> (m \<ge> -85 \<and> m \<le> -51) then GOOD
      else if (m \<ge> 86 \<and> m \<le> 108) \<or> (m \<ge> -108 \<and> m \<le> -86) then BAD
      else if m > 108 then MISS
      else MISS)"

definition checkHit :: "int \<Rightarrow> rat \<Rightarrow> game \<Rightarrow> game" where
  "checkHit la t g =
     (let cs = candidates la t g
      in if cs = [] then g
         else (let sorted = sort_key (\<lambda>i. \<bar>time (runtimeNotes g ! i) - t\<bar>) cs;
                   target = hd sorted;
                   n = runtimeNotes g ! target;
                   offsetSec = t - time n;
                   m = offsetSec * 1000;
                   j = judgeOf m
               in if j \<noteq> MISS then
                    (case type n of
                       Tap \<Rightarrow> logJudge target j (triggerHit j la
                                (g\<lparr>runtimeNotes := (runtimeNotes g)[target := n\<lparr>hit := True\<rparr>]\<rparr>))
                     | LN \<Rightarrow> logJudge target j (triggerHit j la
                                (g\<lparr>runtimeNotes := (runtimeNotes g)
                                      [target := n\<lparr>isHolding := True, hitTime := Some t\<rparr>]\<rparr>)))
                  else logJudge target MISS (triggerMiss target g)))"

subsection \<open>\<open>checkLNRelease\<close>\<close>

definition isHeld :: "int \<Rightarrow> runtimeNote \<Rightarrow> bool" where
  "isHeld la n \<longleftrightarrow> lane n = la \<and> type n = LN \<and> isHolding n \<and> \<not> hit n \<and> \<not> missed n"

definition checkLNRelease :: "int \<Rightarrow> rat \<Rightarrow> game \<Rightarrow> game" where
  "checkLNRelease la t g =
     (case filter (\<lambda>i. isHeld la (runtimeNotes g ! i)) [0 ..< length (runtimeNotes g)] of
        [] \<Rightarrow> g
      | i # _ \<Rightarrow>
          (let n = runtimeNotes g ! i;
               endTime = time n + duration n;
               diff = t - endTime
           in if diff < - (2 / 10) then
                logJudge i MISS (triggerMiss i
                  (g\<lparr>runtimeNotes := (runtimeNotes g)[i := n\<lparr>missed := True, isHolding := False\<rparr>]\<rparr>))
              else g\<lparr>runtimeNotes := (runtimeNotes g)[i := n\<lparr>hit := True, isHolding := False\<rparr>]\<rparr>))"

subsection \<open>\<open>update\<close>: the per-frame sweep\<close>

text \<open>The body of the \<open>for (const note of this.runtimeNotes)\<close> loop for the note at
  index \<open>i\<close>, without the sprite code. \<open>demoStep\<close> is the \<open>autoDemo\<close> block; it returns
  whether it ended the iteration with \<open>continue\<close>.\<close>

definition demoStep :: "rat \<Rightarrow> nat \<Rightarrow> game \<Rightarrow> bool \<times> game" where
  "demoStep t i g =
     (let n = runtimeNotes g ! i
      in if autoDemo g \<and> \<not> hit n \<and> \<not> missed n then
           (case type n of
              LN \<Rightarrow>
                if \<not> isHolding n \<and> t \<ge> time n then
                  (False, logJudge i COOL (triggerHit COOL (lane n)
                     (g\<lparr>runtimeNotes := (runtimeNotes g)
                           [i := n\<lparr>isHolding := True, hitTime := Some t\<rparr>]\<rparr>)))
                else (False, g)
            | Tap \<Rightarrow>
                if \<bar>time n - t\<bar> \<le> 3 / 100 then
                  (True, logJudge i COOL (triggerHit COOL (lane n)
                     (g\<lparr>runtimeNotes := (runtimeNotes g)[i := n\<lparr>hit := True\<rparr>]\<rparr>)))
                else (False, g))
         else (False, g))"

definition sweepNote :: "rat \<Rightarrow> game \<Rightarrow> nat \<Rightarrow> game" where
  "sweepNote t g0 i =
     (case demoStep t i g0 of
        (True, g) \<Rightarrow> g
      | (False, g) \<Rightarrow>
          (let n = runtimeNotes g ! i
           in if type n = LN \<and> isHolding n \<and> \<not> hit n \<and> \<not> missed n then
                (let endTime = time n + duration n
                 in if t \<ge> endTime then
                      logJudge i COOL (triggerHit COOL (lane n)
                        (g\<lparr>runtimeNotes := (runtimeNotes g)
                              [i := n\<lparr>hit := True, isHolding := False\<rparr>]\<rparr>))
                    else g)
              else if hit n then g
              else (let timeDiff = time n - t
                    in if timeDiff < - (15 / 100) \<and> \<not> hit n \<and> \<not> missed n then
                         (if type n = Tap \<or> (type n = LN \<and> \<not> isHolding n)
                          then logJudge i MISS (triggerMiss i g) else g)
                       else g)))"

definition update :: "rat \<Rightarrow> game \<Rightarrow> game" where
  "update t g =
     (if \<not> isPlaying g then g
      else foldl (sweepNote t) g [0 ..< length (runtimeNotes g)])"

subsection \<open>The engine's inputs\<close>

text \<open>\<open>onKeyDown\<close> for a key bound to \<open>lane\<close>, \<open>onKeyUp\<close> for such a key, and one
  ticker call of \<open>update\<close>, each with the clock reading taken inside the call.\<close>

datatype event = Press int rat | Release int rat | Tick rat

definition onKeyDown :: "int \<Rightarrow> rat \<Rightarrow> game \<Rightarrow> game" where
  "onKeyDown la t g = (if \<not> isPlaying g then g else checkHit la t g)"

fun step :: "game \<Rightarrow> event \<Rightarrow> game" where
  "step g (Press la t) = onKeyDown la t g"
| "step g (Release la t) = checkLNRelease la t g"
| "step g (Tick t) = update t g"

definition run :: "event list \<Rightarrow> game \<Rightarrow> game" where
  "run evs g = foldl step g evs"

subsection \<open>Definitions used to state the engine's properties\<close>

text \<open>The base score of the two higher tiers.\<close>

definition tierBase :: "judge \<Rightarrow> int" where
  "tierBase j = (if j = COOL then 100 else 80)"

text \<open>The invariants of the Performance State in a session that has not failed.\<close>

definition liveStats :: "stats \<Rightarrow> bool" where
  "liveStats st \<longleftrightarrow>
     0 \<le> combo st \<and> 0 \<le> comboBonus st \<and> 0 \<le> score st \<and> 0 < hp st \<and> hp st \<le> 100"

text \<open>The lane of a runtime note as the specification words it: lanes below 4 are kept,
  lane 4 becomes lane 3 when no compiled note uses lane 3, lane 5 becomes lane 3 when no
  compiled note uses lane 3 or lane 4, and every other note is dropped.\<close>

definition spec_lane :: "int set \<Rightarrow> int \<Rightarrow> int option" where
  "spec_lane used l =
     (if l < 4 then Some l
      else if l = 4 \<and> 3 \<notin> used then Some 3
      else if l = 5 \<and> 3 \<notin> used \<and> 4 \<notin> used then Some 3
      else None)"

definition spec_runtime :: "int set \<Rightarrow> chartNote \<Rightarrow> runtimeNote option" where
  "spec_runtime used n =
     map_option (\<lambda>l. \<lparr>time = time n, lane = l, type = type n, duration = duration n,
                       hit = False, missed = False, isHolding = False, hitTime = None\<rparr>)
       (spec_lane used (lane n))"

text \<open>Compiled notes for concrete sessions; \<open>tapRow n\<close> is \<open>n\<close> tap notes of lane 0, one
  per second from time 0.\<close>

definition tapAt :: "rat \<Rightarrow> int \<Rightarrow> chartNote" where
  "tapAt t l = \<lparr>time = t, lane = l, type = Tap, duration = 0\<rparr>"

definition holdAt :: "rat \<Rightarrow> int \<Rightarrow> rat \<Rightarrow> chartNote" where
  "holdAt t l d = \<lparr>time = t, lane = l, type = LN, duration = d\<rparr>"

definition tapRow :: "nat \<Rightarrow> chartNote list" where
  "tapRow n = map (\<lambda>k. tapAt (of_nat k) 0) [0 ..< n]"

subsection \<open>Definitions used to follow one note through a session\<close>







text \<open>The iterations of the sweep loop on the note at index \<open>i\<close>, each as the engine
  before and after it: within one \<open>update\<close> call (the state is threaded through the loop
  as \<open>update\<close> threads it), within one input, and over a whole session. \<open>changes\<close> keeps
  the iterations that changed the engine.\<close>

fun sweepIterations :: "rat \<Rightarrow> nat \<Rightarrow> game \<Rightarrow> nat list \<Rightarrow> (game \<times> game) list" where
  "sweepIterations t i g [] = []"
| "sweepIterations t i g (k # ks) =
     (if k = i then [(g, sweepNote t g k)] else []) @ sweepIterations t i (sweepNote t g k) ks"




definition changes :: "(game \<times> game) list \<Rightarrow> (game \<times> game) list" where
  "changes its = filter (\<lambda>hh. snd hh \<noteq> fst hh) its"




section \<open>Timeline compiler (\<open>BMSParser.parse\<close>, src/unnamed/part_000)\<close>

text \<open>
  The compiler is modelled from the end of its first step: the chart is the header
  values, the measure table and the two definition tables that the line scan has built.
  Beats and seconds are rationals, as the engine's times are. A JavaScript number that is
  \<open>NaN\<close> is \<open>None\<close>; where the source would go on computing with \<open>NaN\<close> or with an
  infinite value (a tempo of 0), the model stops with \<open>None\<close> and describes no result.

  \<^item> \<open>headerBPM\<close> is \<open>parseFloat(headers['BPM'])\<close> and \<open>headerLNTYPE\<close> is
    \<open>parseInt(headers['LNTYPE'], 10)\<close>, each \<open>None\<close> when the header is absent;
  \<^item> \<open>measures\<close> lists the entries of the \<open>measures\<close> map, one per measure index, each
    with its channels in the order \<open>for (const ch in channels)\<close> visits them;
  \<^item> \<open>bpmDefs\<close> and \<open>stopDefs\<close> list the entries of the two tables, already numbers.
\<close>

record chart =
  headerBPM :: "rat option"
  headerLNTYPE :: "int option"
  measures :: "(nat \<times> (string \<times> string) list) list"
  bpmDefs :: "(string \<times> rat) list"
  stopDefs :: "(string \<times> int) list"

definition initialBPM :: "chart \<Rightarrow> rat" where
  "initialBPM c = (case headerBPM c of Some b \<Rightarrow> b | None \<Rightarrow> 120)"

definition lnType :: "chart \<Rightarrow> int" where
  "lnType c = (case headerLNTYPE c of Some n \<Rightarrow> n | None \<Rightarrow> 1)"

subsection \<open>Reading numbers from channel data\<close>

text \<open>Data strings are made of digits and letters (the measure pattern admits nothing
  else). On such a string \<open>parseFloat\<close> reads the leading decimal digits and an exponent
  part, if one follows; \<open>parseInt(s, 16)\<close> drops a leading \<open>0x\<close> and reads the leading
  hexadecimal digits; \<open>parseInt(s)\<close> on a channel code reads its decimal digits. Each is
  \<open>NaN\<close> when no digit can be read.\<close>

definition digitTable :: "(char \<times> nat) list" where
  "digitTable = zip ''0123456789'' [0 ..< 10]"

definition hexTable :: "(char \<times> nat) list" where
  "hexTable = zip ''0123456789abcdef'' [0 ..< 16] @ zip ''ABCDEF'' [10 ..< 16]"

definition isDigit :: "char \<Rightarrow> bool" where
  "isDigit ch \<longleftrightarrow> map_of digitTable ch \<noteq> None"

definition isHexDigit :: "char \<Rightarrow> bool" where
  "isHexDigit ch \<longleftrightarrow> map_of hexTable ch \<noteq> None"

definition digitsValue :: "(char \<times> nat) list \<Rightarrow> nat \<Rightarrow> string \<Rightarrow> nat" where
  "digitsValue table base s =
     foldl (\<lambda>a ch. base * a + (case map_of table ch of Some d \<Rightarrow> d | None \<Rightarrow> 0)) 0 s"

definition parseFloat :: "string \<Rightarrow> rat option" where
  "parseFloat s =
     (let ds = takeWhile isDigit s; r = dropWhile isDigit s
      in if ds = [] then None
         else (let m = of_nat (digitsValue digitTable 10 ds);
                   es = (case r of
                           [] \<Rightarrow> []
                         | e # r' \<Rightarrow> if e = CHR ''e'' \<or> e = CHR ''E''
                                     then takeWhile isDigit r' else [])
               in Some (m * 10 ^ digitsValue digitTable 10 es)))"

definition parseIntHex :: "string \<Rightarrow> rat option" where
  "parseIntHex s =
     (let s' = (if take 2 s = ''0x'' \<or> take 2 s = ''0X'' then drop 2 s else s);
          hs = takeWhile isHexDigit s'
      in if hs = [] then None else Some (of_nat (digitsValue hexTable 16 hs)))"

definition parseInt :: "string \<Rightarrow> int option" where
  "parseInt s =
     (let ds = takeWhile isDigit s
      in if ds = [] then None else Some (int (digitsValue digitTable 10 ds)))"

subsection \<open>Measure lengths\<close>

definition sortedMeasureKeys :: "chart \<Rightarrow> nat list" where
  "sortedMeasureKeys c = sort (map fst (measures c))"

definition maxMeasure :: "chart \<Rightarrow> nat" where
  "maxMeasure c = (if sortedMeasureKeys c = [] then 0 else last (sortedMeasureKeys c))"

text \<open>The scale of measure \<open>i\<close>: 1, or \<open>parseFloat\<close> of its channel 02 when the measure
  exists and has that channel (with a data string that is not empty).\<close>

definition measureScale :: "chart \<Rightarrow> nat \<Rightarrow> rat option" where
  "measureScale c i =
     (case map_of (measures c) i of
        None \<Rightarrow> Some 1
      | Some channels \<Rightarrow>
          (case map_of channels ''02'' of
             None \<Rightarrow> Some 1
           | Some d \<Rightarrow> if d = [] then Some 1 else parseFloat d))"

text \<open>The loop filling \<open>measureStartBeats\<close>, with \<open>currentTotalBeats\<close> as accumulator; the
  last element is the entry written after the loop.\<close>

fun startBeats :: "rat option list \<Rightarrow> rat \<Rightarrow> rat list option" where
  "startBeats [] currentTotalBeats = Some [currentTotalBeats]"
| "startBeats (None # scales) currentTotalBeats = None"
| "startBeats (Some scale # scales) currentTotalBeats =
     map_option (\<lambda>bs. currentTotalBeats # bs) (startBeats scales (currentTotalBeats + 4 * scale))"

definition measureStartBeats :: "chart \<Rightarrow> rat list option" where
  "measureStartBeats c = startBeats (map (measureScale c) [0 ..< maxMeasure c + 1]) 0"

definition getBeat :: "rat list \<Rightarrow> nat \<Rightarrow> rat \<Rightarrow> rat \<Rightarrow> rat" where
  "getBeat msb mIdx stepNo totalSteps =
     (let mStart = msb ! mIdx;
          mLen = msb ! (mIdx + 1) - mStart
      in mStart + (stepNo / totalSteps) * mLen)"

subsection \<open>Grid scan\<close>

datatype timeEvent = BpmEv rat "rat option" | StopEv rat int

datatype channelEvent = NoteEv rat int string | LnEv rat int string | BgmEv rat string

fun teBeat :: "timeEvent \<Rightarrow> rat" where
  "teBeat (BpmEv b v) = b"
| "teBeat (StopEv b v) = b"

fun evBeat :: "channelEvent \<Rightarrow> rat" where
  "evBeat (NoteEv b l v) = b"
| "evBeat (LnEv b l v) = b"
| "evBeat (BgmEv b v) = b"

text \<open>The lane of a visible-note channel and of a long-note channel, \<open>-1\<close> when the
  channel number has none.\<close>

definition noteLane :: "int option \<Rightarrow> int" where
  "noteLane n =
     (if n = Some 11 then 0 else if n = Some 12 then 1 else if n = Some 13 then 2
      else if n = Some 16 then 3 else if n = Some 17 then 4 else if n = Some 18 then 5
      else if n = Some 19 then 6 else - 1)"

definition lnLane :: "int option \<Rightarrow> int" where
  "lnLane n =
     (if n = Some 51 then 0 else if n = Some 52 then 1 else if n = Some 53 then 2
      else if n = Some 56 then 3 else if n = Some 57 then 4 else if n = Some 58 then 5
      else if n = Some 59 then 6 else - 1)"

text \<open>The three channel lists that the scan tests \<open>ch\<close> against with \<open>includes\<close>.\<close>

definition isLNChannel :: "string \<Rightarrow> bool" where
  "isLNChannel ch \<longleftrightarrow> ch \<in> set [''51'', ''52'', ''53'', ''54'']"

definition isNoteChannel :: "string \<Rightarrow> bool" where
  "isNoteChannel ch \<longleftrightarrow>
     ch \<in> set [''11'', ''12'', ''13'', ''14'', ''15'', ''16'', ''17'', ''18'', ''19'']"

definition isLongNoteChannel :: "string \<Rightarrow> bool" where
  "isLongNoteChannel ch \<longleftrightarrow>
     ch \<in> set [''51'', ''52'', ''53'', ''54'', ''55'', ''56'', ''57'', ''58'', ''59'']"

text \<open>One step of one channel: the body of the innermost loop, appending to
  \<open>timeEvents\<close> and \<open>channelEvents\<close>. In the branch of the null symbol the channel is one
  of 51 to 54, so \<open>parseInt(ch) - 51\<close> is a number.\<close>

definition scanStep ::
  "chart \<Rightarrow> rat list \<Rightarrow> nat \<Rightarrow> string \<Rightarrow> string \<Rightarrow>
   timeEvent list \<times> channelEvent list \<Rightarrow> nat \<Rightarrow> timeEvent list \<times> channelEvent list" where
  "scanStep c msb mIdx ch data acc i =
     (let timeEvents = fst acc; channelEvents = snd acc;
          steps = of_nat (length data) / 2;
          valStr = take 2 (drop (i * 2) data);
          beat = getBeat msb mIdx (of_nat i) steps
      in if valStr = ''00'' then
           (if isLNChannel ch \<and> lnType c = 2
            then (case parseInt ch of
                    Some n \<Rightarrow> (timeEvents, channelEvents @ [LnEv beat (n - 51) valStr])
                  | None \<Rightarrow> acc)
            else acc)
         else if ch = ''03'' then (timeEvents @ [BpmEv beat (parseIntHex valStr)], channelEvents)
         else if ch = ''08'' then
           (case map_of (bpmDefs c) valStr of
              Some v \<Rightarrow> (timeEvents @ [BpmEv beat (Some v)], channelEvents)
            | None \<Rightarrow> acc)
         else if ch = ''09'' then
           (case map_of (stopDefs c) valStr of
              Some v \<Rightarrow> (timeEvents @ [StopEv beat v], channelEvents)
            | None \<Rightarrow> acc)
         else if ch = ''01'' then (timeEvents, channelEvents @ [BgmEv beat valStr])
         else if isNoteChannel ch then
           (let lane = noteLane (parseInt ch)
            in if lane \<ge> 0 then (timeEvents, channelEvents @ [NoteEv beat lane valStr]) else acc)
         else if isLongNoteChannel ch then
           (let lane = lnLane (parseInt ch)
            in if lane \<ge> 0 then (timeEvents, channelEvents @ [LnEv beat lane valStr]) else acc)
         else acc)"

text \<open>The loop over the steps of a channel (\<open>i < len / 2\<close>, so a data string of odd
  length has a last step of one character), over the channels of a measure, and over
  the measures in the order of their indices.\<close>

definition scanChannel ::
  "chart \<Rightarrow> rat list \<Rightarrow> nat \<Rightarrow> timeEvent list \<times> channelEvent list \<Rightarrow> string \<times> string \<Rightarrow>
   timeEvent list \<times> channelEvent list" where
  "scanChannel c msb mIdx acc chd =
     foldl (scanStep c msb mIdx (fst chd) (snd chd)) acc [0 ..< (length (snd chd) + 1) div 2]"

definition scanMeasure ::
  "chart \<Rightarrow> rat list \<Rightarrow> timeEvent list \<times> channelEvent list \<Rightarrow> nat \<Rightarrow>
   timeEvent list \<times> channelEvent list" where
  "scanMeasure c msb acc mIdx =
     (case map_of (measures c) mIdx of
        None \<Rightarrow> acc
      | Some channels \<Rightarrow> foldl (scanChannel c msb mIdx) acc channels)"

definition scan :: "chart \<Rightarrow> rat list \<Rightarrow> timeEvent list \<times> channelEvent list" where
  "scan c msb = foldl (scanMeasure c msb) ([], []) (sortedMeasureKeys c)"

subsection \<open>Time integration\<close>

text \<open>The lists the parser object collects and the variables of \<open>parse\<close> that the time
  integration and the materialization update. \<open>totalDuration\<close> is \<open>this.duration\<close>;
  \<open>chartNotes\<close> is \<open>this.notes\<close>; \<open>lnPending\<close> maps a lane to its slot of the ten-element array (the scan emits lanes 0
  to 6 only), \<open>None\<close> for \<open>null\<close>.\<close>

record parser =
  chartNotes :: "chartNote list"
  bgmEvents :: "(rat \<times> string) list"
  bpms :: "(rat \<times> rat option) list"
  stops :: "(rat \<times> rat) list"
  totalDuration :: rat
  currentBPM :: "rat option"
  lastTime :: rat
  beatToTime :: "rat \<rightharpoonup> rat"
  lnPending :: "int \<Rightarrow> chartNote option"

definition initParser :: "chart \<Rightarrow> parser" where
  "initParser c =
     \<lparr>chartNotes = [], bgmEvents = [], bpms = [(0, Some (initialBPM c))], stops = [],
      totalDuration = 0, currentBPM = Some (initialBPM c), lastTime = 0,
      beatToTime = Map.empty, lnPending = (\<lambda>l. None)\<rparr>"

text \<open>\<open>60.0 / currentBPM\<close>, when it is a finite number.\<close>

definition secondsPerBeat :: "rat option \<Rightarrow> rat option" where
  "secondsPerBeat bpm =
     (case bpm of None \<Rightarrow> None | Some b \<Rightarrow> if b = 0 then None else Some (60 / b))"

text \<open>The \<open>while\<close> loop at one critical beat. The list is the part of \<open>timeEvents\<close> from
  \<open>teIdx\<close> on; the loop returns what is left of it.\<close>

fun applyEvents :: "rat \<Rightarrow> timeEvent list \<Rightarrow> parser \<Rightarrow> (timeEvent list \<times> parser) option" where
  "applyEvents beat [] p = Some ([], p)"
| "applyEvents beat (ev # evs) p =
     (if \<bar>teBeat ev - beat\<bar> < 1 / 1000000 then
        (case ev of
           BpmEv b v \<Rightarrow>
             applyEvents beat evs (p\<lparr>currentBPM := v, bpms := bpms p @ [(lastTime p, v)]\<rparr>)
         | StopEv b v \<Rightarrow>
             (case (secondsPerBeat (currentBPM p), beatToTime p beat) of
                (Some spb, Some tb) \<Rightarrow>
                  (let stopBeats = of_int v / 48;
                       stopTime = stopBeats * spb
                   in applyEvents beat evs
                        (p\<lparr>lastTime := lastTime p + stopTime, stops := stops p @ [(tb, stopTime)]\<rparr>))
              | _ \<Rightarrow> None))
      else Some (ev # evs, p))"

text \<open>The loop over \<open>sortedBeats\<close>, with \<open>lastBeat\<close> as argument.\<close>

fun integrate :: "rat list \<Rightarrow> rat \<Rightarrow> timeEvent list \<Rightarrow> parser \<Rightarrow> parser option" where
  "integrate [] lastBeat tes p = Some p"
| "integrate (beat # beats) lastBeat tes p =
     (case secondsPerBeat (currentBPM p) of
        None \<Rightarrow> None
      | Some spb \<Rightarrow>
          (let deltaBeats = beat - lastBeat;
               t = lastTime p + deltaBeats * spb;
               p1 = p\<lparr>lastTime := t, beatToTime := (beatToTime p)(beat \<mapsto> t)\<rparr>
           in case applyEvents beat tes p1 of
                None \<Rightarrow> None
              | Some (tes', p2) \<Rightarrow> integrate beats beat tes' p2))"

definition sortedBeats :: "timeEvent list \<Rightarrow> channelEvent list \<Rightarrow> rat list" where
  "sortedBeats tes ces = sort (remdups (0 # map teBeat tes @ map evBeat ces))"

subsection \<open>Event materialization\<close>

definition newLN :: "rat \<Rightarrow> int \<Rightarrow> chartNote" where
  "newLN t l = \<lparr>time = t, lane = l, type = LN, duration = 0\<rparr>"

text \<open>Closing the pending note of a lane at time \<open>t\<close>: its duration is set and it is
  pushed to \<open>notes\<close>.\<close>

definition closeLN :: "rat \<Rightarrow> chartNote \<Rightarrow> parser \<Rightarrow> parser" where
  "closeLN t startNote p = p\<lparr>chartNotes := chartNotes p @ [startNote\<lparr>duration := t - time startNote\<rparr>]\<rparr>"

definition setPending :: "int \<Rightarrow> chartNote option \<Rightarrow> parser \<Rightarrow> parser" where
  "setPending l v p = p\<lparr>lnPending := (lnPending p)(l := v)\<rparr>"

text \<open>The body of the loop over the sorted \<open>channelEvents\<close>.\<close>

definition materializeStep :: "int \<Rightarrow> parser \<Rightarrow> channelEvent \<Rightarrow> parser option" where
  "materializeStep lnT p ev =
     (case beatToTime p (evBeat ev) of
        None \<Rightarrow> None
      | Some t \<Rightarrow>
          (case ev of
             NoteEv b l v \<Rightarrow>
               Some (p\<lparr>chartNotes := chartNotes p @ [\<lparr>time = t, lane = l, type = Tap, duration = 0\<rparr>]\<rparr>)
           | LnEv b l v \<Rightarrow>
               (if lnT = 2 then
                  (if v = ''00'' then
                     (case lnPending p l of
                        Some startNote \<Rightarrow> Some (setPending l None (closeLN t startNote p))
                      | None \<Rightarrow> Some p)
                   else
                     (case lnPending p l of
                        Some startNote \<Rightarrow> Some (setPending l (Some (newLN t l)) (closeLN t startNote p))
                      | None \<Rightarrow> Some (setPending l (Some (newLN t l)) p)))
                else
                  (case lnPending p l of
                     Some startNote \<Rightarrow> Some (setPending l None (closeLN t startNote p))
                   | None \<Rightarrow> Some (setPending l (Some (newLN t l)) p)))
           | BgmEv b v \<Rightarrow> Some (p\<lparr>bgmEvents := bgmEvents p @ [(t, v)]\<rparr>)))"

fun materialize :: "int \<Rightarrow> channelEvent list \<Rightarrow> parser \<Rightarrow> parser option" where
  "materialize lnT [] p = Some p"
| "materialize lnT (ev # evs) p =
     (case materializeStep lnT p ev of None \<Rightarrow> None | Some p' \<Rightarrow> materialize lnT evs p')"

subsection \<open>\<open>parse\<close>\<close>

text \<open>The sorted event lists of a chart, and the whole of \<open>parse\<close> after the line scan.
  The result is the parser object after the final sorts; \<open>lnPending\<close> is never read
  again, so whatever is still pending then is not part of any output list.\<close>

definition timeEvents :: "chart \<Rightarrow> rat list \<Rightarrow> timeEvent list" where
  "timeEvents c msb = sort_key teBeat (fst (scan c msb))"

definition channelEvents :: "chart \<Rightarrow> rat list \<Rightarrow> channelEvent list" where
  "channelEvents c msb = sort_key evBeat (snd (scan c msb))"

definition timed :: "chart \<Rightarrow> rat list \<Rightarrow> parser option" where
  "timed c msb =
     (case integrate (sortedBeats (timeEvents c msb) (channelEvents c msb)) 0
             (timeEvents c msb) (initParser c) of
        None \<Rightarrow> None
      | Some p \<Rightarrow> Some (p\<lparr>totalDuration := lastTime p\<rparr>))"

definition finish :: "parser \<Rightarrow> parser" where
  "finish p = p\<lparr>chartNotes := sort_key time (chartNotes p), bgmEvents := sort_key fst (bgmEvents p)\<rparr>"

definition parse :: "chart \<Rightarrow> parser option" where
  "parse c =
     (case measureStartBeats c of
        None \<Rightarrow> None
      | Some msb \<Rightarrow>
          (case timed c msb of
             None \<Rightarrow> None
           | Some p \<Rightarrow>
               (case materialize (lnType c) (channelEvents c msb) p of
                  None \<Rightarrow> None
                | Some p' \<Rightarrow> Some (finish p'))))"

subsection \<open>Definitions used to state the compiler's properties\<close>


text \<open>The same chart without its stops: the stop definition table is empty, so no id
  of channel 09 resolves and the scan emits no stop event. \<open>scanRel\<close> relates the event
  lists of the two scans.\<close>

definition withoutStops :: "chart \<Rightarrow> chart" where
  "withoutStops c = c\<lparr>stopDefs := []\<rparr>"



text \<open>Three charts. \<open>tapChart v\<close>: base tempo 150, one measure, channel 11 with the value
  \<open>v\<close> at step 0 of 4. \<open>stopChart\<close>: tempo 120, two measures, a stop of 48 ticks at beat 4
  (measure 1, step 0) and tap notes at beats 0, 2, 4, 5 and 6. \<open>holdChart ch\<close>: the
  explicit-off long-note convention, one measure, channel \<open>ch\<close> with a value at step 0
  and the null symbol at step 1 of 2.\<close>

definition tapChart :: "string \<Rightarrow> chart" where
  "tapChart v = \<lparr>headerBPM = Some 150, headerLNTYPE = None,
                  measures = [(0, [(''11'', v @ ''000000'')])], bpmDefs = [], stopDefs = []\<rparr>"


definition holdChart :: "string \<Rightarrow> chart" where
  "holdChart ch = \<lparr>headerBPM = None, headerLNTYPE = Some 2,
                    measures = [(0, [(ch, ''0100'')])], bpmDefs = [], stopDefs = []\<rparr>"

subsection \<open>Definitions used to follow hold notes through materialization\<close>

text \<open>The lane of a hold-channel event, and whether an event can open a hold under the
  long-note convention \<open>lnT\<close> (under the explicit-off convention the null symbol
  cannot).\<close>

fun lnLaneOf :: "channelEvent \<Rightarrow> int option" where
  "lnLaneOf (LnEv b l v) = Some l"
| "lnLaneOf (NoteEv b l v) = None"
| "lnLaneOf (BgmEv b v) = None"

fun opensUnder :: "int \<Rightarrow> channelEvent \<Rightarrow> bool" where
  "opensUnder lnT (LnEv b l v) = (lnT \<noteq> 2 \<or> v \<noteq> ''00'')"
| "opensUnder lnT (NoteEv b l v) = False"
| "opensUnder lnT (BgmEv b v) = False"

definition isHold :: "chartNote \<Rightarrow> bool" where
  "isHold n \<longleftrightarrow> type n = LN"

text \<open>\<open>holdPair lnT b2t ces (i, j) n\<close>: the hold note \<open>n\<close> is made of the events at
  positions \<open>i < j\<close> of the sorted channel events. Both are hold-channel events of the
  note's lane, the first can open a hold, no hold-channel event of that lane lies
  between them, the note starts at the time of the first and ends at the time of the
  second.\<close>

definition holdPair ::
  "int \<Rightarrow> (rat \<rightharpoonup> rat) \<Rightarrow> channelEvent list \<Rightarrow> nat \<times> nat \<Rightarrow> chartNote \<Rightarrow> bool" where
  "holdPair lnT b2t ces ij n \<longleftrightarrow>
     fst ij < snd ij \<and> snd ij < length ces \<and> type n = LN
   \<and> lnLaneOf (ces ! fst ij) = Some (lane n) \<and> opensUnder lnT (ces ! fst ij)
   \<and> lnLaneOf (ces ! snd ij) = Some (lane n)
   \<and> list_all (\<lambda>k. lnLaneOf (ces ! k) \<noteq> Some (lane n)) [Suc (fst ij) ..< snd ij]
   \<and> b2t (evBeat (ces ! fst ij)) = Some (time n)
   \<and> b2t (evBeat (ces ! snd ij)) = Some (time n + duration n)"

text \<open>The invariant of the materialization loop before the event at position \<open>k\<close>: every
  pending note was opened by an earlier event of its lane with no hold-channel event of
  that lane since, and the hold notes pushed so far are made of pairs of events before
  \<open>k\<close>, in the order of their closing events.\<close>

definition opener ::
  "int \<Rightarrow> (rat \<rightharpoonup> rat) \<Rightarrow> channelEvent list \<Rightarrow> nat \<Rightarrow> int \<Rightarrow> chartNote \<Rightarrow> bool" where
  "opener lnT b2t ces i l s \<longleftrightarrow>
     lnLaneOf (ces ! i) = Some l \<and> opensUnder lnT (ces ! i)
   \<and> b2t (evBeat (ces ! i)) = Some (time s) \<and> lane s = l \<and> type s = LN"

definition pendingOk ::
  "int \<Rightarrow> (rat \<rightharpoonup> rat) \<Rightarrow> channelEvent list \<Rightarrow> nat \<Rightarrow> parser \<Rightarrow> bool" where
  "pendingOk lnT b2t ces k p \<longleftrightarrow>
     (\<forall>l s. lnPending p l = Some s \<longrightarrow>
        (\<exists>i < k. opener lnT b2t ces i l s
                \<and> (\<forall>m. i < m \<and> m < k \<longrightarrow> lnLaneOf (ces ! m) \<noteq> Some l)))"

definition matInv ::
  "int \<Rightarrow> (rat \<rightharpoonup> rat) \<Rightarrow> channelEvent list \<Rightarrow> nat \<Rightarrow> parser \<Rightarrow> (nat \<times> nat) list \<Rightarrow> bool" where
  "matInv lnT b2t ces k p ps \<longleftrightarrow>
     beatToTime p = b2t \<and> pendingOk lnT b2t ces k p
   \<and> list_all2 (holdPair lnT b2t ces) ps (filter isHold (chartNotes p))
   \<and> sorted_wrt (<) (map snd ps) \<and> (\<forall>ij \<in> set ps. snd ij < k)"

text \<open>Lanes from 0 to 6: of an event, and of the notes a parser has pushed or holds
  pending.\<close>

fun evLaneOk :: "channelEvent \<Rightarrow> bool" where
  "evLaneOk (NoteEv b l v) = (0 \<le> l \<and> l \<le> 6)"
| "evLaneOk (LnEv b l v) = (0 \<le> l \<and> l \<le> 6)"
| "evLaneOk (BgmEv b v) = True"

definition lanesOk :: "parser \<Rightarrow> bool" where
  "lanesOk p \<longleftrightarrow>
     (\<forall>n \<in> set (chartNotes p). 0 \<le> lane n \<and> lane n \<le> 6)
   \<and> (\<forall>l s. lnPending p l = Some s \<longrightarrow> 0 \<le> lane s \<and> lane s \<le> 6)"

text \<open>A chart under the toggle convention: channel 51 (lane 0) has values at steps 0 and
  3 of 4, channel 52 (lane 1) has a single value at step 0 of 2, which opens a hold
  that nothing closes.\<close>

definition pairChart :: chart where
  "pairChart = \<lparr>headerBPM = None, headerLNTYPE = None,
                 measures = [(0, [(''51'', ''11000011''), (''52'', ''0100'')])],
                 bpmDefs = [], stopDefs = []\<rparr>"

section \<open>Properties of the judgment engine\<close>

subsection \<open>The statistics updates, field by field\<close>

lemma hitHp_fields [simp]:
  "combo (hitHp j st) = combo st" "maxCombo (hitHp j st) = maxCombo st"
  "comboBonus (hitHp j st) = comboBonus st" "score (hitHp j st) = score st"
  by (simp_all add: hitHp_def Let_def)

lemma hitCount_fields [simp]:
  "combo (hitCount j st) = combo st" "maxCombo (hitCount j st) = maxCombo st"
  "comboBonus (hitCount j st) = comboBonus st" "score (hitCount j st) = score st"
  "hp (hitCount j st) = hp st"
  by (simp_all add: hitCount_def)

lemma hitScore_fields [simp]:
  "combo (hitScore j st) = combo st" "maxCombo (hitScore j st) = maxCombo st"
  "comboBonus (hitScore j st) = comboBonus st" "hp (hitScore j st) = hp st"
  by (simp_all add: hitScore_def Let_def)

lemma hitCombo_fields [simp]:
  "score (hitCombo j st) = score st" "hp (hitCombo j st) = hp st"
  by (simp_all add: hitCombo_def Let_def)

lemma floorScore_fields [simp]:
  "combo (floorScore st) = combo st" "maxCombo (floorScore st) = maxCombo st"
  "comboBonus (floorScore st) = comboBonus st" "hp (floorScore st) = hp st"
  "score (floorScore st) = max 0 (score st)"
  by (simp_all add: floorScore_def)

lemma triggerHit_stats:
  "stats (triggerHit j la g) =
     (let st = hitHp j (hitCount j (hitScore j (hitCombo j (stats g))))
      in if hp st \<le> 0 then st else floorScore st)"
  by (simp add: triggerHit_def Let_def)

lemma hitCombo_high:
  "j \<noteq> BAD \<Longrightarrow> 0 \<le> combo st \<Longrightarrow>
     combo (hitCombo j st) = combo st + 1
   \<and> maxCombo (hitCombo j st) = max (maxCombo st) (combo st + 1)
   \<and> comboBonus (hitCombo j st) = comboBonus st + (if (combo st + 1) mod 25 = 0 then 10 else 0)"
  by (simp add: hitCombo_def Let_def max_def)

lemma hitCombo_bad:
  "combo (hitCombo BAD st) = 0 \<and> comboBonus (hitCombo BAD st) = 0"
  by (simp add: hitCombo_def)

lemma hitScore_score:
  "score (hitScore j st) =
     score st + (if j = COOL then 100 + comboBonus st else if j = GOOD then 80 + comboBonus st
                 else if j = BAD then 10 else 0)"
  by (cases j) (simp_all add: hitScore_def Let_def)

lemma hitHp_hp:
  "hp (hitHp j st) = clampHp (hp st + (if j = COOL then 2 else if j = GOOD then 3 / 2 else 0))"
  by (cases j) (simp_all add: hitHp_def Let_def)

text \<open>
  Claim C6. In a state that satisfies the invariants of the Performance State (combo,
  comboBonus and score not negative, health within 0 and 100), a judgment of one of the
  two higher tiers adds 1 to the combo, raises maxCombo to the new combo when that is
  larger, adds 10 to comboBonus exactly when the new combo is a multiple of 25, and adds
  the tier's base value plus the comboBonus so updated to the score. A judgment of the
  bad tier sets combo and comboBonus to 0, adds 10 to the score and leaves the health as
  it was.
\<close>

theorem triggerHit_tiers:
  assumes "0 \<le> combo (stats g)" and "0 \<le> score (stats g)"
    and "0 \<le> hp (stats g)" and "hp (stats g) \<le> 100" and "0 \<le> comboBonus (stats g)"
  shows "(j = COOL \<or> j = GOOD \<longrightarrow>
            combo (stats (triggerHit j la g)) = combo (stats g) + 1
          \<and> maxCombo (stats (triggerHit j la g)) = max (maxCombo (stats g)) (combo (stats g) + 1)
          \<and> comboBonus (stats (triggerHit j la g)) =
              comboBonus (stats g) + (if (combo (stats g) + 1) mod 25 = 0 then 10 else 0)
          \<and> score (stats (triggerHit j la g)) =
              score (stats g) + tierBase j + comboBonus (stats (triggerHit j la g)))
       \<and> (j = BAD \<longrightarrow>
            combo (stats (triggerHit j la g)) = 0
          \<and> comboBonus (stats (triggerHit j la g)) = 0
          \<and> score (stats (triggerHit j la g)) = score (stats g) + 10
          \<and> hp (stats (triggerHit j la g)) = hp (stats g))"
proof (intro conjI impI)
  assume hi: "j = COOL \<or> j = GOOD"
  then have nb: "j \<noteq> BAD" by auto
  note hc = hitCombo_high [OF nb assms(1)]
  show "combo (stats (triggerHit j la g)) = combo (stats g) + 1"
    using hc by (simp add: triggerHit_stats Let_def)
  show "maxCombo (stats (triggerHit j la g)) = max (maxCombo (stats g)) (combo (stats g) + 1)"
    using hc by (simp add: triggerHit_stats Let_def)
  show "comboBonus (stats (triggerHit j la g)) =
      comboBonus (stats g) + (if (combo (stats g) + 1) mod 25 = 0 then 10 else 0)"
    using hc by (simp add: triggerHit_stats Let_def)
  have cb0: "0 \<le> comboBonus (hitCombo j (stats g))"
    using hc assms(5) by simp
  have sc: "score (hitScore j (hitCombo j (stats g))) =
      score (stats g) + tierBase j + comboBonus (hitCombo j (stats g))"
    using hi by (auto simp: hitScore_score tierBase_def)
  have hpos: "\<not> hp (hitHp j (hitCount j (hitScore j (hitCombo j (stats g))))) \<le> 0"
    using hi assms(3,4) by (auto simp: hitHp_hp clampHp_def)
  show "score (stats (triggerHit j la g)) =
      score (stats g) + tierBase j + comboBonus (stats (triggerHit j la g))"
    using sc hpos cb0 assms(2) hi by (auto simp: triggerHit_stats Let_def tierBase_def)
next
  assume b: "j = BAD"
  show "combo (stats (triggerHit j la g)) = 0"
    using b hitCombo_bad by (simp add: triggerHit_stats Let_def)
  show "comboBonus (stats (triggerHit j la g)) = 0"
    using b hitCombo_bad by (simp add: triggerHit_stats Let_def)
  show "score (stats (triggerHit j la g)) = score (stats g) + 10"
    using b assms(2) by (simp add: triggerHit_stats Let_def hitScore_score)
  show "hp (stats (triggerHit j la g)) = hp (stats g)"
    using b assms(3,4) by (simp add: triggerHit_stats Let_def hitHp_hp clampHp_def)
qed

text \<open>The theorem at the 25th combo of a session (a best-tier judgment at combo 24 with
  score 2400) and at a bad-tier judgment in the same state.\<close>

theorem triggerHit_tiers_witness:
  "stats (triggerHit COOL 0 ((start [])\<lparr>stats := freshStats\<lparr>combo := 24, score := 2400\<rparr>\<rparr>))
     = freshStats\<lparr>combo := 25, score := 2510, cool := 1, maxCombo := 25, comboBonus := 10\<rparr>
   \<and> stats (triggerHit BAD 0 ((start [])\<lparr>stats := freshStats\<lparr>combo := 24, score := 2400\<rparr>\<rparr>))
     = freshStats\<lparr>combo := 0, score := 2410, bad := 1\<rparr>"
  using triggerHit_tiers [of "(start [])\<lparr>stats := freshStats\<lparr>combo := 24, score := 2400\<rparr>\<rparr>" COOL 0]
        triggerHit_tiers [of "(start [])\<lparr>stats := freshStats\<lparr>combo := 24, score := 2400\<rparr>\<rparr>" BAD 0]
  by (simp add: start_def freshStats_def triggerHit_def hitHp_def hitCount_def hitScore_def
        hitCombo_def floorScore_def clampHp_def Let_def)

text \<open>The hypotheses of the theorem hold throughout a session that has not failed: they
  hold at its start, a hit keeps them, and a miss keeps them as long as it leaves health
  above 0.\<close>

lemma liveStats_fresh: "liveStats freshStats"
  by (simp add: liveStats_def freshStats_def)

lemma hitCombo_nonneg:
  "0 \<le> combo st \<Longrightarrow> 0 \<le> comboBonus st \<Longrightarrow>
   0 \<le> combo (hitCombo j st) \<and> 0 \<le> comboBonus (hitCombo j st)"
  by (simp add: hitCombo_def Let_def)

lemma liveStats_triggerHit:
  assumes "liveStats (stats g)"
  shows "liveStats (stats (triggerHit j la g))"
proof -
  let ?st = "hitHp j (hitCount j (hitScore j (hitCombo j (stats g))))"
  have c: "0 \<le> combo ?st \<and> 0 \<le> comboBonus ?st"
    using assms hitCombo_nonneg [of "stats g" j] by (simp add: liveStats_def)
  have h: "0 < hp ?st \<and> hp ?st \<le> 100"
    using assms by (auto simp: liveStats_def hitHp_hp clampHp_def)
  show ?thesis
    using c h by (simp add: triggerHit_stats Let_def liveStats_def)
qed

lemma triggerMiss_stats:
  "stats (triggerMiss i g) =
     (if hp (missStats (stats g)) \<le> 0 then missStats (stats g) else floorScore (missStats (stats g)))"
  by (simp add: triggerMiss_def Let_def)

lemma missStats_fields:
  "combo (missStats st) = 0" "comboBonus (missStats st) = 0"
  "hp (missStats st) = clampHp (hp st - 4)"
  by (simp_all add: missStats_def Let_def)

lemma liveStats_triggerMiss:
  assumes "liveStats (stats g)" and "0 < hp (stats (triggerMiss i g))"
  shows "liveStats (stats (triggerMiss i g))"
  using assms
  by (auto simp: triggerMiss_stats liveStats_def missStats_fields clampHp_def split: if_splits)



subsection \<open>Lane remapping at session start\<close>

lemma remapLane_spec:
  "spec_lane used l = (if remapLane used l < 4 then Some (remapLane used l) else None)"
  by (simp add: spec_lane_def remapLane_def Let_def)

lemma prepare_gen:
  "filter (\<lambda>n. lane n < 4) (map (toRuntime used) ns) = List.map_filter (spec_runtime used) ns"
proof (induction ns)
  case Nil
  show ?case by (simp add: map_filter_simps)
next
  case (Cons n ns)
  show ?case
    using Cons.IH
    by (simp add: map_filter_simps spec_runtime_def remapLane_spec toRuntime_def)
qed

text \<open>
  Claim C10. For compiled notes whose lanes are not negative (the compiler emits lanes 0
  to 6), every runtime note has a lane from 0 to 3, and the runtime notes are exactly the
  compiled notes that the remapping rule keeps, in their order, with the lane the rule
  gives them and all runtime flags cleared: lane 4 is kept as lane 3 only when no compiled
  note uses lane 3, lane 5 is kept as lane 3 only when no compiled note uses lane 3 or
  lane 4, and every other note of a lane from 4 upwards is dropped.
\<close>

theorem prepareNotes_lanes:
  assumes "\<forall>n \<in> set ns. 0 \<le> lane n"
  shows "(\<forall>r \<in> set (prepareNotes ns). 0 \<le> lane r \<and> lane r \<le> 3)
       \<and> prepareNotes ns = List.map_filter (spec_runtime (usedLanes ns)) ns"
proof
  show "\<forall>r \<in> set (prepareNotes ns). 0 \<le> lane r \<and> lane r \<le> 3"
    using assms by (auto simp: prepareNotes_def toRuntime_def remapLane_def Let_def)
  show "prepareNotes ns = List.map_filter (spec_runtime (usedLanes ns)) ns"
    unfolding prepareNotes_def by (rule prepare_gen)
qed

text \<open>Two charts: lanes 0, 4, 5, 6 (lane 4 becomes lane 3, lanes 5 and 6 are dropped) and
  lanes 0, 5, 6 (lane 5 becomes lane 3).\<close>

theorem prepareNotes_lanes_witness:
  "map lane (prepareNotes [tapAt 0 0, tapAt 1 4, tapAt 2 5, tapAt 3 6]) = [0, 3]
   \<and> map time (prepareNotes [tapAt 0 0, tapAt 1 4, tapAt 2 5, tapAt 3 6]) = [0, 1]
   \<and> map lane (prepareNotes [tapAt 0 0, tapAt 2 5, tapAt 3 6]) = [0, 3]
   \<and> map time (prepareNotes [tapAt 0 0, tapAt 2 5, tapAt 3 6]) = [0, 2]"
  using prepareNotes_lanes [of "[tapAt 0 0, tapAt 1 4, tapAt 2 5, tapAt 3 6]"]
        prepareNotes_lanes [of "[tapAt 0 0, tapAt 2 5, tapAt 3 6]"]
  by (simp add: tapAt_def usedLanes_def map_filter_simps spec_runtime_def spec_lane_def)

subsection \<open>Two sessions on which the engine leaves its specification\<close>

text \<open>
  Claim C2 (the score floor). A session of 25 tap notes of lane 0, one per second from
  time 0, and no press: the sweep at time 30 misses all of them. With 24 notes the score
  is floored at 0 after every miss and the health ends at 4. With 25 notes the last miss
  takes the health to 0, and \<open>triggerMiss\<close> signals the failure and returns before its
  score floor: the score is left at -20.
\<close>

theorem miss_at_zero_health_skips_score_floor:
  "stats (update 30 (start (tapRow 24))) = freshStats\<lparr>miss := 24, hp := 4\<rparr>
   \<and> stats (update 30 (start (tapRow 25))) = freshStats\<lparr>score := - 20, miss := 25, hp := 0\<rparr>
   \<and> exitClicks (update 30 (start (tapRow 25))) = 1"
  by code_simp

text \<open>
  Claim C1 (one judgment per note). A session of one hold note at time 1 in lane 0: the
  press at time 1 judges its head, and the note, now held but neither hit nor missed, is
  a candidate again for the press at time 1.01, which judges it a second time.
\<close>

theorem held_head_judged_twice:
  "stats (run [Press 0 1] (start [holdAt 1 0 2]))
     = freshStats\<lparr>combo := 1, score := 100, cool := 1, maxCombo := 1\<rparr>
   \<and> stats (run [Press 0 1, Press 0 (101 / 100)] (start [holdAt 1 0 2]))
     = freshStats\<lparr>combo := 2, score := 200, cool := 2, maxCombo := 2\<rparr>
   \<and> judgeLog (run [Press 0 1, Press 0 (101 / 100)] (start [holdAt 1 0 2]))
     = [(0, COOL), (0, COOL)]"
  by code_simp

subsection \<open>A tap note that is never pressed\<close>

lemma triggerHit_frame [simp]:
  "runtimeNotes (triggerHit j la g) = runtimeNotes g"
  "isPlaying (triggerHit j la g) = isPlaying g"
  "autoDemo (triggerHit j la g) = autoDemo g"
  "judgeLog (triggerHit j la g) = judgeLog g"
  by (simp_all add: triggerHit_def Let_def)

lemma triggerMiss_frame [simp]:
  "runtimeNotes (triggerMiss k g) = (runtimeNotes g)[k := (runtimeNotes g ! k)\<lparr>missed := True\<rparr>]"
  "isPlaying (triggerMiss k g) = isPlaying g"
  "autoDemo (triggerMiss k g) = autoDemo g"
  "judgeLog (triggerMiss k g) = judgeLog g"
  by (simp_all add: triggerMiss_def Let_def)

lemma logJudge_frame [simp]:
  "runtimeNotes (logJudge k j g) = runtimeNotes g"
  "isPlaying (logJudge k j g) = isPlaying g"
  "autoDemo (logJudge k j g) = autoDemo g"
  "judgeLog (logJudge k j g) = judgeLog g @ [(k, j)]"
  "stats (logJudge k j g) = stats g"
  by (simp_all add: logJudge_def)














lemma hd_sort_key_mem: "xs \<noteq> [] \<Longrightarrow> hd (sort_key f xs) \<in> set xs"
proof -
  assume "xs \<noteq> []"
  then have "sort_key f xs \<noteq> []" by (metis length_0_conv length_sort)
  then have "hd (sort_key f xs) \<in> set (sort_key f xs)" by (rule hd_in_set)
  then show ?thesis by simp
qed


text \<open>A press that selects a tap note leaves it hit or missed, and a note that is hit or
  missed is no candidate of any later press.\<close>

lemma checkHit_tap_judged:
  assumes "candidates la t g \<noteq> []"
    and "k = hd (sort_key (\<lambda>i. \<bar>time (runtimeNotes g ! i) - t\<bar>) (candidates la t g))"
    and "type (runtimeNotes g ! k) = Tap"
  shows "hit (runtimeNotes (checkHit la t g) ! k) \<or> missed (runtimeNotes (checkHit la t g) ! k)"
proof -
  have "k \<in> set (candidates la t g)"
    unfolding assms(2) using assms(1) by (rule hd_sort_key_mem)
  then have kl: "k < length (runtimeNotes g)" by (simp add: candidates_def)
  show ?thesis
    using assms(1,3) kl
    by (simp add: checkHit_def Let_def assms(2) [symmetric])
qed

lemma judged_not_candidate: "hit n \<or> missed n \<Longrightarrow> \<not> isCandidate la t n"
  by (auto simp: isCandidate_def)









lemma changes_simps [simp]:
  "changes [] = []" "changes (xs @ ys) = changes xs @ changes ys"
  "changes [(h, h')] = (if h' \<noteq> h then [(h, h')] else [])"
  by (simp_all add: changes_def)








lemma sweepIterations_are_iterations:
  "(h, h') \<in> set (sweepIterations t i g ks) \<Longrightarrow> h' = sweepNote t h i"
  by (induction ks arbitrary: g) (auto split: if_splits)



section \<open>Properties of the timeline compiler\<close>

subsection \<open>The end-to-end scenario\<close>

lemma parseInt_11: "parseInt ''11'' = Some 11"
  by code_simp

lemma channel_11: "\<not> isLNChannel ''11''" "isNoteChannel ''11''"
  by (simp_all add: isLNChannel_def isNoteChannel_def)

lemma tapChart_msb: "measureStartBeats (tapChart v) = Some [0, 4]"
  by (simp add: measureStartBeats_def maxMeasure_def sortedMeasureKeys_def tapChart_def
        measureScale_def)

lemma upt4: "[0 ..< 4] = [0, 1, 2, 3]"
  by (simp add: upt_rec)

lemma tapChart_scan:
  assumes "length v = 2" and "v \<noteq> ''00''"
  shows "scan (tapChart v) [0, 4] = ([], [NoteEv 0 0 v])"
proof -
  have s0: "scanStep (tapChart v) [0, 4] 0 ''11'' (v @ ''000000'') ([], []) 0 = ([], [NoteEv 0 0 v])"
    using assms by (simp add: scanStep_def Let_def getBeat_def parseInt_11 noteLane_def
          channel_11)
  have sk: "\<And>k acc. k \<in> {1, 2, 3} \<Longrightarrow>
      scanStep (tapChart v) [0, 4] 0 ''11'' (v @ ''000000'') acc k = acc"
    using assms by (auto simp: scanStep_def Let_def channel_11)
  have ch: "scanChannel (tapChart v) [0, 4] 0 ([], []) (''11'', v @ ''000000'')
      = ([], [NoteEv 0 0 v])"
    using assms s0 sk by (simp add: scanChannel_def upt4)
  have m: "measures (tapChart v) = [(0, [(''11'', v @ ''000000'')])]"
    by (simp add: tapChart_def)
  show ?thesis
    using ch by (simp add: scan_def scanMeasure_def sortedMeasureKeys_def m)
qed

text \<open>
  Claim C4, as the code has it. A chart with base tempo 150 and one measure of 4 beats
  without a length-scale channel, whose channel 11 (lane 0) has a value other than the
  null symbol at step 0 of 4 steps, compiles to the note list
  \<open>[{time: 0, lane: 0, type: tap, duration: 0}]\<close> and to the total duration 0: the
  accumulated seconds at the last critical beat, which is beat 0, the beat of the note.
\<close>

theorem single_tap_chart:
  assumes "length v = 2" and "v \<noteq> ''00''"
  shows "map_option chartNotes (parse (tapChart v))
           = Some [\<lparr>time = 0, lane = 0, type = Tap, duration = 0\<rparr>]
       \<and> map_option totalDuration (parse (tapChart v)) = Some 0"
proof -
  have te: "timeEvents (tapChart v) [0, 4] = []"
    and ce: "channelEvents (tapChart v) [0, 4] = [NoteEv 0 0 v]"
    using tapChart_scan [OF assms] by (simp_all add: timeEvents_def channelEvents_def)
  have bpm: "initialBPM (tapChart v) = 150" and ln: "lnType (tapChart v) = 1"
    by (simp_all add: initialBPM_def lnType_def tapChart_def)
  show ?thesis
    by (simp add: parse_def tapChart_msb timed_def te ce sortedBeats_def initParser_def bpm ln
          secondsPerBeat_def materializeStep_def finish_def)
qed

theorem single_tap_chart_witness:
  "map_option chartNotes (parse (tapChart ''0A''))
     = Some [\<lparr>time = 0, lane = 0, type = Tap, duration = 0\<rparr>]
   \<and> map_option totalDuration (parse (tapChart ''0A'')) = Some 0"
  using single_tap_chart [of "''0A''"] by simp

text \<open>The duration of that chart is not \<open>(60 / 150) * 4\<close>: the time integration stops at
  the last critical beat and never reaches the end of the measure.\<close>

theorem single_tap_chart_duration_counterexample:
  "map_option totalDuration (parse (tapChart ''01'')) = Some 0
   \<and> map_option totalDuration (parse (tapChart ''01'')) \<noteq> Some ((60 / 150) * 4)"
  by code_simp

subsection \<open>A stop of 48 ticks at tempo 120\<close>





lemma withoutStops_simps [simp]:
  "lnType (withoutStops c) = lnType c" "bpmDefs (withoutStops c) = bpmDefs c"
  "stopDefs (withoutStops c) = []" "measures (withoutStops c) = measures c"
  "initialBPM (withoutStops c) = initialBPM c"
  by (simp_all add: withoutStops_def lnType_def initialBPM_def)
















subsection \<open>The null symbol on hold channels\<close>

text \<open>
  Claim C5 (where the code leaves it). Under the explicit-off convention the null symbol
  of channel 51 is kept as an event of lane 0 and closes the hold opened before it. The
  null symbol of channel 56, which opens holds of lane 3, is dropped, so the hold it
  should close stays pending and is never emitted. The null symbol of channel 54, which
  opens no hold, is kept as an event of lane 3.
\<close>

theorem null_symbol_kept_for_51_to_54_only:
  "scan (holdChart ''51'') [0, 4] = ([], [LnEv 0 0 ''01'', LnEv 2 0 ''00''])
   \<and> scan (holdChart ''56'') [0, 4] = ([], [LnEv 0 3 ''01''])
   \<and> scan (holdChart ''54'') [0, 4] = ([], [LnEv 2 3 ''00''])
   \<and> map_option chartNotes (parse (holdChart ''51''))
       = Some [\<lparr>time = 0, lane = 0, type = LN, duration = 1\<rparr>]
   \<and> map_option chartNotes (parse (holdChart ''56'')) = Some []"
  by code_simp

subsection \<open>Hold notes and their pairs of events\<close>

lemma pendingOk_Suc:
  assumes ok: "pendingOk lnT b2t ces k p"
    and keep: "\<And>l s. lnPending p' l = Some s \<Longrightarrow> lnLaneOf (ces ! k) \<noteq> Some l
                 \<Longrightarrow> lnPending p l = Some s"
    and new: "\<And>l s. lnPending p' l = Some s \<Longrightarrow> lnLaneOf (ces ! k) = Some l
                 \<Longrightarrow> opener lnT b2t ces k l s"
  shows "pendingOk lnT b2t ces (Suc k) p'"
  unfolding pendingOk_def
proof (intro allI impI)
  fix l s
  assume ps: "lnPending p' l = Some s"
  show "\<exists>i < Suc k. opener lnT b2t ces i l s
          \<and> (\<forall>m. i < m \<and> m < Suc k \<longrightarrow> lnLaneOf (ces ! m) \<noteq> Some l)"
  proof (cases "lnLaneOf (ces ! k) = Some l")
    case True
    have "opener lnT b2t ces k l s" using ps True by (rule new)
    then show ?thesis by auto
  next
    case False
    have "lnPending p l = Some s" using ps False by (rule keep)
    then obtain i where i: "i < k" and o: "opener lnT b2t ces i l s"
      and n: "\<forall>m. i < m \<and> m < k \<longrightarrow> lnLaneOf (ces ! m) \<noteq> Some l"
      using ok unfolding pendingOk_def by blast
    have n': "\<forall>m. i < m \<and> m < Suc k \<longrightarrow> lnLaneOf (ces ! m) \<noteq> Some l"
      using n False by (auto simp: less_Suc_eq)
    have i': "i < Suc k" using i by simp
    show ?thesis using i' o n' by blast
  qed
qed

lemma matInv_keep:
  assumes inv: "matInv lnT b2t ces k p ps"
    and b: "beatToTime p' = beatToTime p"
    and h: "filter isHold (chartNotes p') = filter isHold (chartNotes p)"
    and pk: "pendingOk lnT b2t ces (Suc k) p'"
  shows "matInv lnT b2t ces (Suc k) p' ps"
  using inv b h pk by (auto simp: matInv_def less_Suc_eq)

lemma matInv_close:
  assumes inv: "matInv lnT b2t ces k p ps"
    and b: "beatToTime p' = beatToTime p"
    and h: "filter isHold (chartNotes p') = filter isHold (chartNotes p) @ [n]"
    and hp: "holdPair lnT b2t ces (i, k) n"
    and pk: "pendingOk lnT b2t ces (Suc k) p'"
  shows "matInv lnT b2t ces (Suc k) p' (ps @ [(i, k)])"
proof -
  have l2: "list_all2 (holdPair lnT b2t ces) (ps @ [(i, k)]) (filter isHold (chartNotes p'))"
    using inv hp unfolding h matInv_def by (intro list_all2_appendI) simp_all
  have so: "sorted_wrt (<) (map snd (ps @ [(i, k)]))"
    using inv by (auto simp: matInv_def sorted_wrt_append)
  have bd: "\<forall>ij \<in> set (ps @ [(i, k)]). snd ij < Suc k"
    using inv by (auto simp: matInv_def less_Suc_eq)
  show ?thesis
    using inv b pk l2 so bd unfolding matInv_def by simp
qed

lemma closed_pair:
  assumes ok: "pendingOk lnT b2t ces k p" and pl: "lnPending p l = Some s"
    and k: "k < length ces" and e: "ces ! k = LnEv bb l v" and t: "b2t bb = Some t"
  shows "\<exists>i. holdPair lnT b2t ces (i, k) (s\<lparr>duration := t - time s\<rparr>)"
proof -
  obtain i where i: "i < k" and o: "opener lnT b2t ces i l s"
    and n: "\<forall>m. i < m \<and> m < k \<longrightarrow> lnLaneOf (ces ! m) \<noteq> Some l"
    using ok pl unfolding pendingOk_def by blast
  have "holdPair lnT b2t ces (i, k) (s\<lparr>duration := t - time s\<rparr>)"
    using i o n k e t by (auto simp: holdPair_def opener_def list_all_iff)
  then show ?thesis ..
qed

lemma setPending_fields [simp]:
  "beatToTime (setPending l v p) = beatToTime p"
  "chartNotes (setPending l v p) = chartNotes p"
  "lnPending (setPending l v p) = (lnPending p)(l := v)"
  by (simp_all add: setPending_def)

lemma closeLN_fields [simp]:
  "beatToTime (closeLN t s p) = beatToTime p"
  "chartNotes (closeLN t s p) = chartNotes p @ [s\<lparr>duration := t - time s\<rparr>]"
  "lnPending (closeLN t s p) = lnPending p"
  by (simp_all add: closeLN_def)

lemma opener_new:
  assumes "ces ! k = LnEv bb l v" and "b2t bb = Some t" and "lnT \<noteq> 2 \<or> v \<noteq> ''00''"
  shows "opener lnT b2t ces k l (newLN t l)"
  using assms by (simp add: opener_def newLN_def)

lemma pending_isHold:
  assumes "pendingOk lnT b2t ces k p" and "lnPending p l = Some s"
  shows "isHold (s\<lparr>duration := d\<rparr>)"
  using assms unfolding pendingOk_def opener_def isHold_def by fastforce

lemma materializeStep_inv:
  assumes inv: "matInv lnT b2t ces k p ps" and k: "k < length ces"
    and st: "materializeStep lnT p (ces ! k) = Some p'"
  shows "\<exists>ps'. matInv lnT b2t ces (Suc k) p' ps'"
proof -
  have bt: "beatToTime p = b2t" and ok: "pendingOk lnT b2t ces k p"
    using inv by (simp_all add: matInv_def)
  obtain t where t: "b2t (evBeat (ces ! k)) = Some t"
    using st bt by (cases "b2t (evBeat (ces ! k))") (simp_all add: materializeStep_def)
  show ?thesis
  proof (cases "ces ! k")
    case (NoteEv bb l v)
    have p': "p' = p\<lparr>chartNotes := chartNotes p @ [\<lparr>time = t, lane = l, type = Tap, duration = 0\<rparr>]\<rparr>"
      using st t bt NoteEv by (simp add: materializeStep_def)
    have pk: "pendingOk lnT b2t ces (Suc k) p'"
      using ok by (rule pendingOk_Suc) (simp_all add: p' NoteEv)
    have "matInv lnT b2t ces (Suc k) p' ps"
      using inv _ _ pk by (rule matInv_keep) (simp_all add: p' isHold_def)
    then show ?thesis ..
  next
    case (BgmEv bb v)
    have p': "p' = p\<lparr>bgmEvents := bgmEvents p @ [(t, v)]\<rparr>"
      using st t bt BgmEv by (simp add: materializeStep_def)
    have pk: "pendingOk lnT b2t ces (Suc k) p'"
      using ok by (rule pendingOk_Suc) (simp_all add: p' BgmEv)
    have "matInv lnT b2t ces (Suc k) p' ps"
      using inv _ _ pk by (rule matInv_keep) (simp_all add: p')
    then show ?thesis ..
  next
    case (LnEv bb l v)
    have tb: "b2t bb = Some t" using t LnEv by simp
    show ?thesis
    proof (cases "lnPending p l")
      case None
      show ?thesis
      proof (cases "lnT = 2 \<and> v = ''00''")
        case True
        have p': "p' = p"
          using st t bt LnEv None True by (simp add: materializeStep_def)
        have pk: "pendingOk lnT b2t ces (Suc k) p'"
          using ok by (rule pendingOk_Suc) (use None in \<open>auto simp: p' LnEv\<close>)
        have "matInv lnT b2t ces (Suc k) p' ps"
          using inv _ _ pk by (rule matInv_keep) (simp_all add: p')
        then show ?thesis ..
      next
        case False
        then have f: "lnT \<noteq> 2 \<or> v \<noteq> ''00''" by simp
        have p': "p' = setPending l (Some (newLN t l)) p"
          using st t bt LnEv False by (simp add: materializeStep_def None split: if_splits)
        have on: "opener lnT b2t ces k l (newLN t l)"
          using LnEv tb f by (rule opener_new)
        have pk: "pendingOk lnT b2t ces (Suc k) p'"
          using ok by (rule pendingOk_Suc) (auto simp: p' LnEv on split: if_splits)
        have "matInv lnT b2t ces (Suc k) p' ps"
          using inv _ _ pk by (rule matInv_keep) (simp_all add: p')
        then show ?thesis ..
      qed
    next
      case (Some s)
      obtain i where hp: "holdPair lnT b2t ces (i, k) (s\<lparr>duration := t - time s\<rparr>)"
        using closed_pair [OF ok Some k LnEv tb] by blast
      have ih: "isHold (s\<lparr>duration := t - time s\<rparr>)"
        using ok Some by (rule pending_isHold)
      show ?thesis
      proof (cases "lnT = 2 \<and> v \<noteq> ''00''")
        case True
        then have f: "lnT \<noteq> 2 \<or> v \<noteq> ''00''" by simp
        have p': "p' = setPending l (Some (newLN t l)) (closeLN t s p)"
          using st t bt LnEv Some True by (simp add: materializeStep_def)
        have on: "opener lnT b2t ces k l (newLN t l)"
          using LnEv tb f by (rule opener_new)
        have pk: "pendingOk lnT b2t ces (Suc k) p'"
          using ok by (rule pendingOk_Suc) (auto simp: p' LnEv on split: if_splits)
        have "matInv lnT b2t ces (Suc k) p' (ps @ [(i, k)])"
          using inv _ _ hp pk by (rule matInv_close) (simp_all add: p' ih)
        then show ?thesis ..
      next
        case False
        have p': "p' = setPending l None (closeLN t s p)"
          using st t bt LnEv False by (simp add: materializeStep_def Some split: if_splits)
        have pk: "pendingOk lnT b2t ces (Suc k) p'"
          using ok by (rule pendingOk_Suc) (auto simp: p' LnEv split: if_splits)
        have "matInv lnT b2t ces (Suc k) p' (ps @ [(i, k)])"
          using inv _ _ hp pk by (rule matInv_close) (simp_all add: p' ih)
        then show ?thesis ..
      qed
    qed
  qed
qed

lemma materialize_inv:
  assumes "matInv lnT b2t ces k p ps" and "k \<le> length ces"
    and "materialize lnT (drop k ces) p = Some p'"
  shows "\<exists>ps'. matInv lnT b2t ces (length ces) p' ps'"
  using assms
proof (induction "length ces - k" arbitrary: k p ps)
  case 0
  then have "k = length ces" by simp
  then show ?case using "0.prems" by auto
next
  case (Suc d)
  then have k: "k < length ces" by simp
  have dr: "drop k ces = ces ! k # drop (Suc k) ces"
    using k by (simp add: Cons_nth_drop_Suc)
  obtain p1 where s1: "materializeStep lnT p (ces ! k) = Some p1"
    and m1: "materialize lnT (drop (Suc k) ces) p1 = Some p'"
    using Suc.prems(3) unfolding dr
    by (cases "materializeStep lnT p (ces ! k)") simp_all
  obtain ps1 where i1: "matInv lnT b2t ces (Suc k) p1 ps1"
    using materializeStep_inv [OF Suc.prems(1) k s1] by blast
  have d: "d = length ces - Suc k" using Suc.hyps(2) by simp
  have le: "Suc k \<le> length ces" using k by simp
  show ?case using Suc.hyps(1) [OF d i1 le m1] .
qed

lemma applyEvents_frame:
  "applyEvents beat tes p = Some (tes', p') \<Longrightarrow>
   chartNotes p' = chartNotes p \<and> lnPending p' = lnPending p"
proof (induction beat tes p arbitrary: tes' p' rule: applyEvents.induct)
  case (1 beat p)
  then show ?case by simp
next
  case (2 beat ev evs p)
  show ?case
  proof (cases "\<bar>teBeat ev - beat\<bar> < 1 / 1000000")
    case False
    then show ?thesis using "2.prems" by simp
  next
    case True
    show ?thesis
    proof (cases ev)
      case (BpmEv b v)
      have "applyEvents beat evs (p\<lparr>currentBPM := v, bpms := bpms p @ [(lastTime p, v)]\<rparr>)
              = Some (tes', p')"
        using "2.prems" True BpmEv by simp
      from "2.IH"(1) [OF True BpmEv this] show ?thesis by simp
    next
      case (StopEv b v)
      obtain spb tb where sp: "secondsPerBeat (currentBPM p) = Some spb"
        and tb: "beatToTime p beat = Some tb"
        using "2.prems" True StopEv
        by (cases "secondsPerBeat (currentBPM p)"; cases "beatToTime p beat") simp_all
      define stopBeats where "stopBeats = (of_int v :: rat) / 48"
      define stopTime where "stopTime = stopBeats * spb"
      have "applyEvents beat evs
              (p\<lparr>lastTime := lastTime p + stopTime, stops := stops p @ [(tb, stopTime)]\<rparr>)
              = Some (tes', p')"
        using "2.prems" True StopEv sp tb by (simp add: Let_def stopTime_def stopBeats_def)
      from "2.IH"(2) [OF True StopEv refl sp tb stopBeats_def stopTime_def this]
      show ?thesis by simp
    qed
  qed
qed

lemma integrate_frame:
  "integrate bs lb tes p = Some p' \<Longrightarrow>
   chartNotes p' = chartNotes p \<and> lnPending p' = lnPending p"
proof (induction bs arbitrary: lb tes p)
  case Nil
  then show ?case by simp
next
  case (Cons b bs)
  obtain spb where sp: "secondsPerBeat (currentBPM p) = Some spb"
    using Cons.prems by (cases "secondsPerBeat (currentBPM p)") simp_all
  define p1 where "p1 = p\<lparr>lastTime := lastTime p + (b - lb) * spb,
      beatToTime := (beatToTime p)(b \<mapsto> lastTime p + (b - lb) * spb)\<rparr>"
  obtain tes' p2 where a: "applyEvents b tes p1 = Some (tes', p2)"
    and i: "integrate bs b tes' p2 = Some p'"
    using Cons.prems sp unfolding p1_def
    by (cases "applyEvents b tes (p\<lparr>lastTime := lastTime p + (b - lb) * spb,
          beatToTime := (beatToTime p)(b \<mapsto> lastTime p + (b - lb) * spb)\<rparr>)")
       (auto simp: Let_def)
  have "chartNotes p2 = chartNotes p1 \<and> lnPending p2 = lnPending p1"
    using a by (rule applyEvents_frame)
  moreover have "chartNotes p' = chartNotes p2 \<and> lnPending p' = lnPending p2"
    using i by (rule Cons.IH)
  ultimately show ?case by (simp add: p1_def)
qed

lemma timed_start:
  assumes "timed c msb = Some p"
  shows "chartNotes p = [] \<and> lnPending p = (\<lambda>l. None)"
proof -
  obtain p0 where i: "integrate (sortedBeats (timeEvents c msb) (channelEvents c msb)) 0
      (timeEvents c msb) (initParser c) = Some p0" and p: "p = p0\<lparr>totalDuration := lastTime p0\<rparr>"
    using assms unfolding timed_def
    by (cases "integrate (sortedBeats (timeEvents c msb) (channelEvents c msb)) 0
      (timeEvents c msb) (initParser c)") auto
  show ?thesis using integrate_frame [OF i] by (simp add: p initParser_def)
qed

lemma list_all2_ex:
  assumes "list_all2 P xs ys" and "y \<in> set ys"
  shows "\<exists>x. P x y"
  using assms by (induction rule: list_all2_induct) auto

text \<open>A pair needs a hold-channel event of the lane after the opening one, so an opening
  that no later event of its lane follows is the first half of no pair.\<close>

lemma unmatched_opening_has_no_pair:
  assumes "\<forall>j. i < j \<and> j < length ces \<longrightarrow> lnLaneOf (ces ! j) \<noteq> Some (lane n)"
  shows "\<not> holdPair lnT b2t ces (i, j) n"
  using assms by (auto simp: holdPair_def)

text \<open>
  Claim C8. Whenever \<open>parse\<close> yields a result, the hold notes of its note list are, up to
  the final stable sort by time, a list \<open>hs\<close> of notes matched one to one with a list
  \<open>ps\<close> of pairs of positions in the sorted channel events, with strictly increasing
  closing positions. Each pair is an opening hold-channel event and the next
  hold-channel event of the same lane, and the note made of it has the lane of the two
  events, starts at the time of the first and lasts until the time of the second. So
  every hold note of the output has its own closing event and a duration computed from
  it, and an opening that is still pending at the end, having no later event of its
  lane, gives no note.
\<close>

theorem holds_come_from_pairs:
  assumes "measureStartBeats c = Some msb" and "parse c = Some r"
  shows "\<exists>ps hs. sort_key time hs = filter isHold (chartNotes r)
           \<and> list_all2 (holdPair (lnType c) (beatToTime r) (channelEvents c msb)) ps hs
           \<and> sorted_wrt (<) (map snd ps)
           \<and> (\<forall>n \<in> set (chartNotes r). type n = LN \<longrightarrow>
                 (\<exists>ij. holdPair (lnType c) (beatToTime r) (channelEvents c msb) ij n))"
proof -
  let ?ces = "channelEvents c msb"
  obtain p0 p' where t: "timed c msb = Some p0"
    and m: "materialize (lnType c) ?ces p0 = Some p'" and r: "r = finish p'"
    using assms unfolding parse_def
    by (cases "timed c msb"; cases "materialize (lnType c) ?ces (the (timed c msb))") auto
  have s: "chartNotes p0 = []" "lnPending p0 = (\<lambda>l. None)"
    using timed_start [OF t] by simp_all
  have i0: "matInv (lnType c) (beatToTime p0) ?ces 0 p0 []"
    using s by (simp add: matInv_def pendingOk_def)
  obtain ps where inv: "matInv (lnType c) (beatToTime p0) ?ces (length ?ces) p' ps"
    using materialize_inv [OF i0 _ _, of p'] m by auto
  have b: "beatToTime r = beatToTime p0"
    using inv by (simp add: matInv_def r finish_def)
  define hs where "hs = filter isHold (chartNotes p')"
  have l2: "list_all2 (holdPair (lnType c) (beatToTime r) ?ces) ps hs"
    and so: "sorted_wrt (<) (map snd ps)"
    using inv by (simp_all add: matInv_def b hs_def)
  have sk: "sort_key time hs = filter isHold (chartNotes r)"
    by (simp add: hs_def r finish_def filter_sort)
  have al: "\<forall>n \<in> set (chartNotes r). type n = LN \<longrightarrow>
              (\<exists>ij. holdPair (lnType c) (beatToTime r) ?ces ij n)"
  proof (intro ballI impI)
    fix n
    assume "n \<in> set (chartNotes r)" and "type n = LN"
    then have "n \<in> set (filter isHold (chartNotes r))" by (simp add: isHold_def)
    then have "n \<in> set hs" unfolding sk [symmetric] by simp
    with l2 show "\<exists>ij. holdPair (lnType c) (beatToTime r) ?ces ij n" by (rule list_all2_ex)
  qed
  show ?thesis using sk l2 so al by blast
qed

text \<open>On \<open>pairChart\<close> the hold of lane 0 is emitted with the duration from beat 0 to beat
  3, and the opening of lane 1 is not.\<close>

theorem holds_come_from_pairs_witness:
  "measureStartBeats pairChart = Some [0, 4]
   \<and> map_option chartNotes (parse pairChart)
       = Some [\<lparr>time = 0, lane = 0, type = LN, duration = 3 / 2\<rparr>]
   \<and> (\<exists>ij. holdPair (lnType pairChart) (beatToTime (the (parse pairChart)))
               (channelEvents pairChart [0, 4]) ij
               \<lparr>time = 0, lane = 0, type = LN, duration = 3 / 2\<rparr>)"
proof -
  have h1: "measureStartBeats pairChart = Some [0, 4]" by code_simp
  have h2: "map_option chartNotes (parse pairChart)
              = Some [\<lparr>time = 0, lane = 0, type = LN, duration = 3 / 2\<rparr>]"
    by code_simp
  then obtain r where r: "parse pairChart = Some r"
    and n: "chartNotes r = [\<lparr>time = 0, lane = 0, type = LN, duration = 3 / 2\<rparr>]"
    by auto
  have "\<exists>ij. holdPair (lnType pairChart) (beatToTime r) (channelEvents pairChart [0, 4]) ij
               \<lparr>time = 0, lane = 0, type = LN, duration = 3 / 2\<rparr>"
    using holds_come_from_pairs [OF h1 r] n by auto
  then show ?thesis using h1 h2 r by simp
qed

subsection \<open>The lanes of compiled notes\<close>

text \<open>Every lane the scan emits, and so every lane of a compiled note and every index
  into \<open>lnPending\<close>, is one of 0 to 6.\<close>

lemma noteLane_range: "0 \<le> noteLane n \<Longrightarrow> noteLane n \<le> 6"
  by (simp add: noteLane_def split: if_splits)

lemma lnLane_range: "0 \<le> lnLane n \<Longrightarrow> lnLane n \<le> 6"
  by (simp add: lnLane_def split: if_splits)

lemma isLNChannel_parseInt:
  "isLNChannel ch \<Longrightarrow> parseInt ch = Some n \<Longrightarrow> 0 \<le> n - 51 \<and> n - 51 \<le> 6"
proof -
  assume a: "isLNChannel ch" and p: "parseInt ch = Some n"
  have v: "parseInt ''51'' = Some 51" "parseInt ''52'' = Some 52"
          "parseInt ''53'' = Some 53" "parseInt ''54'' = Some 54"
    by code_simp+
  from a have "ch = ''51'' \<or> ch = ''52'' \<or> ch = ''53'' \<or> ch = ''54''"
    by (simp add: isLNChannel_def)
  then show ?thesis using p v by auto
qed

lemma scanStep_lanes:
  assumes "list_all evLaneOk (snd acc)"
  shows "list_all evLaneOk (snd (scanStep c msb mIdx ch data acc i))"
proof (cases "take 2 (drop (i * 2) data) = ''00''")
  case True
  show ?thesis
    using assms True
    by (auto simp: scanStep_def Let_def dest: isLNChannel_parseInt split: option.split)
next
  case False
  show ?thesis
    using assms False noteLane_range [of "parseInt ch"] lnLane_range [of "parseInt ch"]
    by (simp add: scanStep_def Let_def split: option.split)
qed

lemma foldl_inv:
  assumes "\<And>a x. P a \<Longrightarrow> P (f a x)" and "P a"
  shows "P (foldl f a xs)"
  using assms(2) by (induction xs arbitrary: a) (simp_all add: assms(1))

lemma scan_lanes: "list_all evLaneOk (snd (scan c msb))"
proof -
  have ch: "\<And>acc mIdx chd. list_all evLaneOk (snd acc) \<Longrightarrow>
      list_all evLaneOk (snd (scanChannel c msb mIdx acc chd))"
    unfolding scanChannel_def
    by (rule foldl_inv [where P = "\<lambda>a. list_all evLaneOk (snd a)"]) (rule scanStep_lanes)
  have me: "\<And>acc mIdx. list_all evLaneOk (snd acc) \<Longrightarrow>
      list_all evLaneOk (snd (scanMeasure c msb acc mIdx))"
    unfolding scanMeasure_def
    by (simp add: foldl_inv [where P = "\<lambda>a. list_all evLaneOk (snd a)"] ch split: option.split)
  show ?thesis
    unfolding scan_def
    by (rule foldl_inv [where P = "\<lambda>a. list_all evLaneOk (snd a)"]) (simp_all add: me)
qed

lemma channelEvents_lanes: "list_all evLaneOk (channelEvents c msb)"
  using scan_lanes [of c msb] by (simp add: channelEvents_def list_all_iff)

lemma materializeStep_lanes:
  assumes "lanesOk p" and "evLaneOk ev" and "materializeStep lnT p ev = Some p'"
  shows "lanesOk p'"
proof -
  obtain t where t: "beatToTime p (evBeat ev) = Some t"
    using assms(3) by (cases "beatToTime p (evBeat ev)") (simp_all add: materializeStep_def)
  show ?thesis
  proof (cases ev)
    case (NoteEv b l v)
    then show ?thesis
      using assms t by (auto simp: materializeStep_def lanesOk_def)
  next
    case (BgmEv b v)
    then show ?thesis
      using assms t by (auto simp: materializeStep_def lanesOk_def)
  next
    case (LnEv b l v)
    show ?thesis
    proof (cases "lnPending p l")
      case None
      then show ?thesis
        using assms t LnEv
        by (auto simp: materializeStep_def lanesOk_def setPending_def newLN_def split: if_splits)
    next
      case (Some s)
      then have "0 \<le> lane s \<and> lane s \<le> 6" using assms(1) by (auto simp: lanesOk_def)
      then show ?thesis
        using assms t LnEv Some
        by (auto simp: materializeStep_def lanesOk_def setPending_def closeLN_def newLN_def
              split: if_splits)
    qed
  qed
qed

lemma materialize_lanes:
  "lanesOk p \<Longrightarrow> list_all evLaneOk evs \<Longrightarrow> materialize lnT evs p = Some p' \<Longrightarrow> lanesOk p'"
proof (induction evs arbitrary: p)
  case Nil
  then show ?case by simp
next
  case (Cons ev evs)
  obtain p1 where s: "materializeStep lnT p ev = Some p1"
    and m: "materialize lnT evs p1 = Some p'"
    using Cons.prems(3) by (cases "materializeStep lnT p ev") simp_all
  have "lanesOk p1" using Cons.prems(1) _ s by (rule materializeStep_lanes) (use Cons.prems(2) in simp)
  then show ?case using Cons.prems(2) m by (intro Cons.IH) simp_all
qed

lemma parse_lanes:
  assumes "parse c = Some r"
  shows "\<forall>n \<in> set (chartNotes r). 0 \<le> lane n \<and> lane n \<le> 6"
proof -
  obtain msb p0 p' where t: "timed c msb = Some p0"
    and m: "materialize (lnType c) (channelEvents c msb) p0 = Some p'" and r: "r = finish p'"
    using assms unfolding parse_def
    by (cases "measureStartBeats c"; cases "timed c (the (measureStartBeats c))";
        cases "materialize (lnType c) (channelEvents c (the (measureStartBeats c)))
                 (the (timed c (the (measureStartBeats c))))") auto
  have "lanesOk p0" using timed_start [OF t] by (simp add: lanesOk_def)
  then have "lanesOk p'" using channelEvents_lanes m by (rule materialize_lanes)
  then show ?thesis by (simp add: lanesOk_def r finish_def)
qed

end
